theory Spec2Isabelle
  imports
    Complex_Main
    "HOL-Library.Multiset"
    "HOL-Library.Char_ord"
    "HOL-Library.List_Lexorder"
    "HOL-Library.Product_Lexorder"
begin

section \<open>Tables of the referendum pipeline\<close>

text \<open>
  The program \<open>pandas_questions.py\<close> works on pandas tables. A table is modelled as
  the list of its rows, a row as a record with one field per column the program reads or
  writes. An absent value (pandas' NaN in a column of strings) and an absent column are
  \<open>None\<close>. The integer columns are int64 columns: their values are integers from
  \<open>-2^63\<close> to \<open>2^63 - 1\<close>, and a sum or an addition of columns that leaves this range
  wraps around.
\<close>

definition in_int64 :: "int \<Rightarrow> bool" where
  "in_int64 n \<longleftrightarrow> - (2 ^ 63) \<le> n \<and> n < 2 ^ 63"

definition wrap_int64 :: "int \<Rightarrow> int" where
  "wrap_int64 n = (n + 2 ^ 63) mod 2 ^ 64 - 2 ^ 63"

text \<open>The column \<open>'Department code'\<close> as read from the file: numbers or strings.\<close>

datatype raw_code = IntCode int | StrCode string

text \<open>The five count columns, shared by the referendum table and the regional results.\<close>

record counts =
  Registered :: int
  Abstentions :: int
  Null :: int
  Choice_A :: int
  Choice_B :: int

text \<open>
  A row of the referendum table. \<open>ref_code_dep\<close> is the column \<open>'code_dep'\<close>, which the
  table does not have when it is loaded.
\<close>

record vote_record = counts +
  Department_code :: raw_code
  ref_code_dep :: "string option"

text \<open>Rows of \<open>regions.csv\<close> (columns code, name) and \<open>departments.csv\<close>.\<close>

record region =
  reg_code :: string
  reg_name :: string

record department =
  dep_code :: string
  dep_name :: string
  region_code :: string

text \<open>A row of the table returned by \<open>merge_regions_and_departments\<close>.\<close>

record area =
  code_reg :: string
  name_reg :: "string option"
  code_dep :: string
  name_dep :: string

text \<open>
  A float64 value: a finite number, an infinity or NaN. Finite values are real numbers;
  the rounding of float64 is a parameter \<open>rnd\<close> of the operations that round.
\<close>

datatype float64 = Finite real | PosInf | NegInf | NaN

fun is_finite :: "float64 \<Rightarrow> bool" where
  "is_finite (Finite _) = True"
| "is_finite _ = False"

text \<open>
  What is used of rounding to the nearest float64: it is monotone, it keeps 0 and 1, and
  on the range of the normal numbers its relative error is at most \<open>2^-53\<close>.
\<close>

definition float64_rounding :: "(real \<Rightarrow> real) \<Rightarrow> bool" where
  "float64_rounding rnd \<longleftrightarrow>
     mono rnd \<and> rnd 0 = 0 \<and> rnd 1 = 1 \<and>
     (\<forall>x. 1 / 2 ^ 1022 \<le> \<bar>x\<bar> \<and> \<bar>x\<bar> \<le> 2 ^ 1023 \<longrightarrow> \<bar>rnd x - x\<bar> \<le> \<bar>x\<bar> / 2 ^ 53)"

text \<open>
  A row of the regional results: the index \<open>code_reg\<close>, the name, the five sums, and the
  column \<open>'ratio'\<close>, absent until \<open>plot_referendum_map\<close> assigns it.
\<close>

record region_result = counts +
  res_code_reg :: string
  res_name_reg :: string
  ratio :: "float64 option"

text \<open>A row of \<open>regions.geojson\<close>: the code and the geometry, whose type is left open.\<close>

record 'g geo_region =
  geo_code :: raw_code
  geometry :: 'g

section \<open>Strings: \<open>astype(str)\<close>, \<open>str.zfill\<close>, \<open>str.contains\<close>\<close>

definition digit_char :: "nat \<Rightarrow> char" where
  "digit_char d = char_of (48 + d)"

text \<open>Python's \<open>str\<close> of a non-negative integer: its decimal digits.\<close>

function str_nat :: "nat \<Rightarrow> string" where
  "str_nat n = (if n < 10 then [digit_char n] else str_nat (n div 10) @ [digit_char (n mod 10)])"
  by pat_completeness auto
termination
  by (relation "measure (\<lambda>n. n)") auto

declare str_nat.simps [simp del]

definition str_int :: "int \<Rightarrow> string" where
  "str_int i = (if i < 0 then CHR ''-'' # str_nat (nat (- i)) else str_nat (nat i))"

text \<open>\<open>Series.astype(str)\<close> on one value: a number is printed, a string is kept.\<close>

fun astype_str :: "raw_code \<Rightarrow> string" where
  "astype_str (IntCode i) = str_int i"
| "astype_str (StrCode s) = s"

text \<open>
  \<open>Series.str.zfill(width)\<close> on one value, which is Python's \<open>str.zfill\<close>: a string
  shorter than \<open>width\<close> is filled with zeros on the left, after its sign if it starts
  with one. (Older versions of pandas fill before the sign; the two agree on every string
  that does not start with a sign.)
\<close>

definition zfill :: "nat \<Rightarrow> string \<Rightarrow> string" where
  "zfill width s =
     (if width \<le> length s then s
      else (case s of
              [] \<Rightarrow> replicate width CHR ''0''
            | c # rest \<Rightarrow>
                if c = CHR ''+'' \<or> c = CHR ''-''
                then c # replicate (width - length s) CHR ''0'' @ rest
                else replicate (width - length s) CHR ''0'' @ s))"

text \<open>\<open>Series.str.contains('Z')\<close> on one value: the letter occurs in the string.\<close>

definition contains_Z :: "string \<Rightarrow> bool" where
  "contains_Z s = (CHR ''Z'' \<in> set s)"

text \<open>
  The numeric value of a string, as Python's \<open>int\<close> reads a sign followed by decimal
  digits; \<open>None\<close> for any other string.
\<close>

definition is_digit :: "char \<Rightarrow> bool" where
  "is_digit c = (CHR ''0'' \<le> c \<and> c \<le> CHR ''9'')"

definition digit_val :: "char \<Rightarrow> nat" where
  "digit_val c = of_char c - 48"

definition nat_of_str :: "string \<Rightarrow> nat option" where
  "nat_of_str s =
     (if s = [] \<or> \<not> list_all is_digit s then None
      else Some (foldl (\<lambda>acc c. 10 * acc + digit_val c) 0 s))"

definition int_of_str :: "string \<Rightarrow> int option" where
  "int_of_str s =
     (case s of
        [] \<Rightarrow> None
      | c # rest \<Rightarrow>
          if c = CHR ''-'' then map_option (\<lambda>n. - int n) (nat_of_str rest)
          else if c = CHR ''+'' then map_option int (nat_of_str rest)
          else map_option int (nat_of_str s))"

text \<open>The numeric value of a raw department code.\<close>

fun code_value :: "raw_code \<Rightarrow> int option" where
  "code_value (IntCode i) = Some i"
| "code_value (StrCode s) = int_of_str s"

section \<open>\<open>pd.merge\<close>\<close>

text \<open>
  \<open>pd.merge(left, right, how='inner')\<close> on one key: every left row, in the order of the
  left table, paired with every right row of the same key.
\<close>

definition merge_inner :: "('a \<Rightarrow> 'k) \<Rightarrow> ('b \<Rightarrow> 'k) \<Rightarrow> 'a list \<Rightarrow> 'b list \<Rightarrow> ('a \<times> 'b) list" where
  "merge_inner kl kr left right =
     concat (map (\<lambda>l. map (Pair l) (filter (\<lambda>r. kr r = kl l) right)) left)"

text \<open>
  \<open>how='left'\<close>: a left row without a partner is kept once, its right columns absent.
\<close>

definition merge_left :: "('a \<Rightarrow> 'k) \<Rightarrow> ('b \<Rightarrow> 'k) \<Rightarrow> 'a list \<Rightarrow> 'b list \<Rightarrow> ('a \<times> 'b option) list" where
  "merge_left kl kr left right =
     concat (map (\<lambda>l. case filter (\<lambda>r. kr r = kl l) right of
                         [] \<Rightarrow> [(l, None)]
                       | ms \<Rightarrow> map (\<lambda>r. (l, Some r)) ms) left)"

section \<open>The four stages\<close>

subsection \<open>\<open>merge_regions_and_departments\<close>\<close>

definition area_row :: "department \<times> region option \<Rightarrow> area" where
  "area_row p =
     \<lparr>code_reg = region_code (fst p), name_reg = map_option reg_name (snd p),
      code_dep = dep_code (fst p), name_dep = dep_name (fst p)\<rparr>"

definition merge_regions_and_departments :: "region list \<Rightarrow> department list \<Rightarrow> area list" where
  "merge_regions_and_departments regions departments =
     map area_row (merge_left region_code reg_code departments regions)"

subsection \<open>\<open>merge_referendum_and_areas\<close>\<close>

text \<open>Lines 57 and 58: the column \<open>'code_dep'\<close> is assigned on the table passed in.\<close>

definition normalize_code :: "raw_code \<Rightarrow> string" where
  "normalize_code c = zfill 2 (astype_str c)"

definition assign_code_dep :: "vote_record list \<Rightarrow> vote_record list" where
  "assign_code_dep referendum =
     map (\<lambda>r. r\<lparr>ref_code_dep := Some (normalize_code (Department_code r))\<rparr>) referendum"

text \<open>Line 61: a new table without the rows whose \<open>'code_dep'\<close> contains a Z.\<close>

definition has_Z :: "vote_record \<Rightarrow> bool" where
  "has_Z r = (case ref_code_dep r of None \<Rightarrow> False | Some c \<Rightarrow> contains_Z c)"

definition drop_Z :: "vote_record list \<Rightarrow> vote_record list" where
  "drop_Z referendum = filter (\<lambda>r. \<not> has_Z r) referendum"

text \<open>
  The function returns the merged table; the first component is the table that the
  caller passed in, as it is after the call.
\<close>

definition merge_referendum_and_areas ::
  "vote_record list \<Rightarrow> area list \<Rightarrow> vote_record list \<times> (vote_record \<times> area) list" where
  "merge_referendum_and_areas referendum regions_and_departments =
     (let referendum' = assign_code_dep referendum;
          kept = drop_Z referendum';
          merged = merge_inner ref_code_dep (\<lambda>a. Some (code_dep a)) kept regions_and_departments
      in (referendum', merged))"

subsection \<open>\<open>compute_referendum_result_by_regions\<close>\<close>

text \<open>
  \<open>groupby(['code_reg', 'name_reg'])\<close>: a row whose key has an absent value belongs to no
  group; the groups come in ascending order of their keys.
\<close>

definition group_key :: "vote_record \<times> area \<Rightarrow> (string \<times> string) option" where
  "group_key row = map_option (Pair (code_reg (snd row))) (name_reg (snd row))"

definition group_keys :: "(vote_record \<times> area) list \<Rightarrow> (string \<times> string) list" where
  "group_keys rows = sort (remdups (List.map_filter group_key rows))"

definition group_rows :: "string \<times> string \<Rightarrow> (vote_record \<times> area) list \<Rightarrow> vote_record list" where
  "group_rows k rows = map fst (filter (\<lambda>row. group_key row = Some k) rows)"

text \<open>The vote records of the input rows whose region code is \<open>R\<close>.\<close>

definition rows_of_region :: "string \<Rightarrow> (vote_record \<times> area) list \<Rightarrow> vote_record list" where
  "rows_of_region R rows = map fst (filter (\<lambda>row. code_reg (snd row) = R) rows)"

text \<open>The \<open>'sum'\<close> of an int64 column of a group: it wraps around.\<close>

definition column_sum :: "('r \<Rightarrow> int) \<Rightarrow> 'r list \<Rightarrow> int" where
  "column_sum col rows = wrap_int64 (sum_list (map col rows))"

definition agg_sum :: "string \<times> string \<Rightarrow> vote_record list \<Rightarrow> region_result" where
  "agg_sum k g =
     \<lparr>Registered = column_sum Registered g, Abstentions = column_sum Abstentions g,
      Null = column_sum Null g, Choice_A = column_sum Choice_A g,
      Choice_B = column_sum Choice_B g,
      res_code_reg = fst k, res_name_reg = snd k, ratio = None\<rparr>"

definition compute_referendum_result_by_regions ::
  "(vote_record \<times> area) list \<Rightarrow> region_result list" where
  "compute_referendum_result_by_regions referendum_and_areas =
     map (\<lambda>k. agg_sum k (group_rows k referendum_and_areas)) (group_keys referendum_and_areas)"

subsection \<open>\<open>plot_referendum_map\<close>\<close>

text \<open>An integer column becomes float64 for the division: the nearest float.\<close>

definition to_float :: "(real \<Rightarrow> real) \<Rightarrow> int \<Rightarrow> real" where
  "to_float rnd n = rnd (of_int n)"

text \<open>
  The division of two float64 columns raises nothing: a zero divisor gives NaN for
  \<open>0 / 0\<close> and an infinity otherwise.
\<close>

definition true_divide :: "(real \<Rightarrow> real) \<Rightarrow> real \<Rightarrow> real \<Rightarrow> float64" where
  "true_divide rnd x y =
     (if y = 0 then (if x = 0 then NaN else if 0 < x then PosInf else NegInf)
      else Finite (rnd (x / y)))"

text \<open>
  Lines 107 to 109: \<open>a / (a + b)\<close>, assigned as column \<open>'ratio'\<close> of the table passed in.
  The addition is that of two int64 columns and wraps around; the division is that of the
  two columns as float64.
\<close>

definition ratio_of :: "(real \<Rightarrow> real) \<Rightarrow> int \<Rightarrow> int \<Rightarrow> float64" where
  "ratio_of rnd a b = true_divide rnd (to_float rnd a) (to_float rnd (wrap_int64 (a + b)))"

definition assign_ratio :: "(real \<Rightarrow> real) \<Rightarrow> region_result list \<Rightarrow> region_result list" where
  "assign_ratio rnd results =
     map (\<lambda>r. r\<lparr>ratio := Some (ratio_of rnd (Choice_A r) (Choice_B r))\<rparr>) results"

text \<open>
  The geometry table is read from a file; it is a parameter here, as the rounding is.
  The function returns the table \<open>gdf\<close>; the first component is the table of results
  that the caller passed in, as it is after the call.
\<close>

definition plot_referendum_map ::
  "(real \<Rightarrow> real) \<Rightarrow> 'g geo_region list \<Rightarrow> region_result list
     \<Rightarrow> region_result list \<times> ((string \<times> 'g) \<times> region_result) list" where
  "plot_referendum_map rnd regions_geo referendum_result_by_regions =
     (let results' = assign_ratio rnd referendum_result_by_regions;
          geo' = map (\<lambda>g. (astype_str (geo_code g), geometry g)) regions_geo;
          gdf = merge_inner fst res_code_reg geo' results'
      in (results', gdf))"

section \<open>Rows for examples\<close>

definition vote_row :: "raw_code \<Rightarrow> int \<Rightarrow> int \<Rightarrow> int \<Rightarrow> int \<Rightarrow> int \<Rightarrow> vote_record" where
  "vote_row c reg abst nul a b =
     \<lparr>Registered = reg, Abstentions = abst, Null = nul, Choice_A = a, Choice_B = b,
      Department_code = c, ref_code_dep = None\<rparr>"

definition area_of :: "string \<Rightarrow> string option \<Rightarrow> string \<Rightarrow> string \<Rightarrow> area" where
  "area_of cr nr cd nd = \<lparr>code_reg = cr, name_reg = nr, code_dep = cd, name_dep = nd\<rparr>"

definition result_row :: "string \<Rightarrow> string \<Rightarrow> int \<Rightarrow> int \<Rightarrow> int \<Rightarrow> int \<Rightarrow> int \<Rightarrow> region_result" where
  "result_row cr nr reg abst nul a b =
     \<lparr>Registered = reg, Abstentions = abst, Null = nul, Choice_A = a, Choice_B = b,
      res_code_reg = cr, res_name_reg = nr, ratio = None\<rparr>"

text \<open>The scenario of the specification, with an overseas record and an empty region.\<close>

definition example_regions :: "region list" where
  "example_regions =
     [\<lparr>reg_code = ''84'', reg_name = ''Auvergne-Rhone-Alpes''\<rparr>,
      \<lparr>reg_code = ''11'', reg_name = ''Ile-de-France''\<rparr>]"

definition example_departments :: "department list" where
  "example_departments =
     [\<lparr>dep_code = ''01'', dep_name = ''Ain'', region_code = ''84''\<rparr>,
      \<lparr>dep_code = ''75'', dep_name = ''Paris'', region_code = ''11''\<rparr>,
      \<lparr>dep_code = ''ZA'', dep_name = ''Guadeloupe'', region_code = ''01''\<rparr>]"

definition example_referendum :: "vote_record list" where
  "example_referendum =
     [vote_row (IntCode 1) 100 30 5 60 40,
      vote_row (StrCode ''ZA'') 40 10 2 20 8,
      vote_row (IntCode 1) 50 15 5 10 20,
      vote_row (StrCode ''75'') 10 10 0 0 0]"

definition example_geo :: "nat geo_region list" where
  "example_geo =
     [\<lparr>geo_code = IntCode 84, geometry = 0\<rparr>, \<lparr>geo_code = StrCode ''11'', geometry = 1\<rparr>]"

section \<open>Facts about \<open>pd.merge\<close>\<close>

lemma set_merge_inner:
  "set (merge_inner kl kr left right) = {(l, r). l \<in> set left \<and> r \<in> set right \<and> kr r = kl l}"
  by (auto simp: merge_inner_def)

lemma length_merge_inner:
  "length (merge_inner kl kr left right) =
     sum_list (map (\<lambda>l. length (filter (\<lambda>r. kr r = kl l) right)) left)"
  by (simp add: merge_inner_def length_concat comp_def)

lemma count_distinct_key:
  "distinct (map kr right) \<Longrightarrow>
   length (filter (\<lambda>r. kr r = k) right) = (if k \<in> kr ` set right then 1 else 0)"
proof (induction right)
  case Nil
  then show ?case by simp
next
  case (Cons r right)
  then show ?case by (auto simp: image_iff)
qed

lemma sum_le_length:
  fixes f :: "'a \<Rightarrow> nat"
  shows "(\<forall>x \<in> set xs. f x \<le> 1) \<Longrightarrow>
    sum_list (map f xs) \<le> length xs \<and>
    (sum_list (map f xs) = length xs \<longleftrightarrow> (\<forall>x \<in> set xs. f x = 1))"
proof (induction xs)
  case Nil
  then show ?case by simp
next
  case (Cons x xs)
  then have IH: "sum_list (map f xs) \<le> length xs"
    "(sum_list (map f xs) = length xs \<longleftrightarrow> (\<forall>x \<in> set xs. f x = 1))" by auto
  have fx: "f x \<le> 1" using Cons.prems by simp
  show ?case
  proof (cases "f x = 1")
    case True
    with IH show ?thesis by simp
  next
    case False
    with fx have "f x = 0" by simp
    with IH show ?thesis by auto
  qed
qed

lemma merge_left_Cons:
  "merge_left kl kr (l # left) right =
     (case filter (\<lambda>r. kr r = kl l) right of
        [] \<Rightarrow> [(l, None)]
      | ms \<Rightarrow> map (\<lambda>r. (l, Some r)) ms)
     @ merge_left kl kr left right"
  by (simp add: merge_left_def)

lemma filter_distinct_key:
  "distinct (map kr right) \<Longrightarrow>
   filter (\<lambda>r. kr r = k) right = (case find (\<lambda>r. kr r = k) right of None \<Rightarrow> [] | Some r \<Rightarrow> [r])"
proof (induction right)
  case Nil
  then show ?case by simp
next
  case (Cons r right)
  show ?case
  proof (cases "kr r = k")
    case True
    then have "\<forall>x \<in> set right. kr x \<noteq> k" using Cons.prems by (auto simp: image_iff)
    then have "filter (\<lambda>r. kr r = k) right = []" by (simp add: filter_empty_conv)
    with True show ?thesis by simp
  next
    case False
    with Cons show ?thesis by simp
  qed
qed

lemma merge_left_distinct:
  "distinct (map kr right) \<Longrightarrow>
   merge_left kl kr left right = map (\<lambda>l. (l, find (\<lambda>r. kr r = kl l) right)) left"
proof (induction left)
  case Nil
  then show ?case by (simp add: merge_left_def)
next
  case (Cons l left)
  then show ?case
    by (simp add: merge_left_Cons filter_distinct_key split: option.splits)
qed

section \<open>Facts about the stages\<close>

lemma wrap_int64_id: "in_int64 n \<Longrightarrow> wrap_int64 n = n"
  by (simp add: in_int64_def wrap_int64_def)

lemma drop_Z_assign:
  "drop_Z (assign_code_dep referendum) =
     map (\<lambda>r. r\<lparr>ref_code_dep := Some (normalize_code (Department_code r))\<rparr>)
       (filter (\<lambda>r. \<not> contains_Z (normalize_code (Department_code r))) referendum)"
  by (simp add: drop_Z_def assign_code_dep_def filter_map comp_def has_Z_def)

lemma filter_removeAll_absorb: "\<not> P r \<Longrightarrow> filter P (removeAll r xs) = filter P xs"
  by (induction xs) auto

lemma merged_row_origin:
  assumes "row \<in> set (snd (merge_referendum_and_areas referendum areas))"
  shows "\<not> contains_Z (normalize_code (Department_code (fst row)))
       \<and> code_dep (snd row) = normalize_code (Department_code (fst row))
       \<and> ref_code_dep (fst row) = Some (code_dep (snd row))
       \<and> snd row \<in> set areas
       \<and> (\<exists>r \<in> set referendum.
            fst row = r\<lparr>ref_code_dep := Some (normalize_code (Department_code r))\<rparr>)"
proof -
  obtain l a where row: "row = (l, a)" by (cases row)
  have mem: "(l, a) \<in> set (merge_inner ref_code_dep (\<lambda>a. Some (code_dep a))
      (drop_Z (assign_code_dep referendum)) areas)"
    using assms by (simp add: row merge_referendum_and_areas_def Let_def)
  then show ?thesis
    unfolding row set_merge_inner drop_Z_assign by auto
qed

lemma plot_rows:
  "set (fst (plot_referendum_map rnd regions_geo results)) =
     (\<lambda>r. r\<lparr>ratio := Some (ratio_of rnd (Choice_A r) (Choice_B r))\<rparr>) ` set results"
  by (simp add: plot_referendum_map_def Let_def assign_ratio_def)

lemma plot_gdf_rows:
  "row \<in> set (snd (plot_referendum_map rnd regions_geo results)) \<Longrightarrow>
     snd row \<in> set (fst (plot_referendum_map rnd regions_geo results))"
proof -
  assume a: "row \<in> set (snd (plot_referendum_map rnd regions_geo results))"
  obtain g r where row: "row = (g, r)" by (cases row)
  show ?thesis
    using a unfolding row by (simp add: plot_referendum_map_def Let_def set_merge_inner)
qed

lemma plot_row_ratio:
  assumes "r \<in> set (fst (plot_referendum_map rnd regions_geo results))"
  shows "ratio r = Some (ratio_of rnd (Choice_A r) (Choice_B r))"
  using assms by (auto simp: plot_rows)

section \<open>Area table\<close>

text \<open>
  Claim C5: when no region code occurs twice in the regions table, the table returned by
  \<open>merge_regions_and_departments\<close> has one row per row of the departments table, in the
  same order and with the department's code, name and region code; its columns are the
  four fields of \<open>area\<close>; the region name is that of the region with the department's
  region code, and it is absent when no region has that code.
\<close>

theorem one_row_per_department:
  assumes "distinct (map reg_code regions)"
  shows "length (merge_regions_and_departments regions departments) = length departments
    \<and> map code_dep (merge_regions_and_departments regions departments) = map dep_code departments
    \<and> map name_dep (merge_regions_and_departments regions departments) = map dep_name departments
    \<and> map code_reg (merge_regions_and_departments regions departments)
        = map region_code departments
    \<and> map name_reg (merge_regions_and_departments regions departments)
        = map (\<lambda>d. map_option reg_name (find (\<lambda>r. reg_code r = region_code d) regions))
            departments
    \<and> (\<forall>i < length departments.
          region_code (departments ! i) \<notin> reg_code ` set regions \<longrightarrow>
          name_reg (merge_regions_and_departments regions departments ! i) = None)"
proof -
  have eq: "merge_regions_and_departments regions departments =
      map (\<lambda>d. area_row (d, find (\<lambda>r. reg_code r = region_code d) regions)) departments"
    by (simp add: merge_regions_and_departments_def merge_left_distinct[OF assms] comp_def)
  have none: "find (\<lambda>r. reg_code r = k) regions = None" if "k \<notin> reg_code ` set regions" for k
    using that by (auto simp: find_None_iff)
  show ?thesis
    by (simp add: eq area_row_def comp_def none)
qed

theorem one_row_per_department_witness:
  "distinct (map reg_code example_regions)
   \<and> length (merge_regions_and_departments example_regions example_departments)
        = length example_departments
   \<and> map code_dep (merge_regions_and_departments example_regions example_departments)
        = map dep_code example_departments
   \<and> map name_dep (merge_regions_and_departments example_regions example_departments)
        = map dep_name example_departments
   \<and> map code_reg (merge_regions_and_departments example_regions example_departments)
        = map region_code example_departments
   \<and> region_code (example_departments ! 2) \<notin> reg_code ` set example_regions
   \<and> name_reg (merge_regions_and_departments example_regions example_departments ! 2) = None"
proof -
  have h: "distinct (map reg_code example_regions)" by code_simp
  have i: "2 < length example_departments" by code_simp
  have n: "region_code (example_departments ! 2) \<notin> reg_code ` set example_regions"
    by code_simp
  from one_row_per_department [OF h, of example_departments] h i n show ?thesis by blast
qed

section \<open>Exclusion of the Z codes\<close>

text \<open>
  Claim C2: a record of the referendum table whose normalized department code contains
  the letter Z is in no row of the merged table (no row has its department code, and no
  row has a code with a Z), and it is in no table computed from it: the merged table, the
  regional results and the table with the geometries are the same when the record is
  taken out of the input.
\<close>

theorem excluded_records_absent:
  assumes "r \<in> set referendum" and "contains_Z (normalize_code (Department_code r))"
  shows "(\<forall>row \<in> set (snd (merge_referendum_and_areas referendum areas)).
            Department_code (fst row) \<noteq> Department_code r \<and> \<not> contains_Z (code_dep (snd row)))
       \<and> snd (merge_referendum_and_areas (removeAll r referendum) areas)
           = snd (merge_referendum_and_areas referendum areas)
       \<and> compute_referendum_result_by_regions
             (snd (merge_referendum_and_areas (removeAll r referendum) areas))
           = compute_referendum_result_by_regions (snd (merge_referendum_and_areas referendum areas))
       \<and> snd (plot_referendum_map rnd regions_geo (compute_referendum_result_by_regions
             (snd (merge_referendum_and_areas (removeAll r referendum) areas))))
           = snd (plot_referendum_map rnd regions_geo (compute_referendum_result_by_regions
             (snd (merge_referendum_and_areas referendum areas))))"
proof -
  have rows: "Department_code (fst row) \<noteq> Department_code r \<and> \<not> contains_Z (code_dep (snd row))"
    if "row \<in> set (snd (merge_referendum_and_areas referendum areas))" for row
    using merged_row_origin[OF that] assms(2) by auto
  have "drop_Z (assign_code_dep (removeAll r referendum)) = drop_Z (assign_code_dep referendum)"
    using assms(2) by (simp add: drop_Z_assign filter_removeAll_absorb)
  then have same: "snd (merge_referendum_and_areas (removeAll r referendum) areas)
           = snd (merge_referendum_and_areas referendum areas)"
    by (simp add: merge_referendum_and_areas_def Let_def)
  show ?thesis using rows by (simp add: same)
qed

theorem excluded_records_absent_witness:
  "vote_row (StrCode ''ZA'') 40 10 2 20 8 \<in> set example_referendum
   \<and> contains_Z (normalize_code (Department_code (vote_row (StrCode ''ZA'') 40 10 2 20 8)))
   \<and> snd (merge_referendum_and_areas
            (removeAll (vote_row (StrCode ''ZA'') 40 10 2 20 8) example_referendum)
            (merge_regions_and_departments example_regions example_departments))
       = snd (merge_referendum_and_areas example_referendum
            (merge_regions_and_departments example_regions example_departments))
   \<and> compute_referendum_result_by_regions (snd (merge_referendum_and_areas
            (removeAll (vote_row (StrCode ''ZA'') 40 10 2 20 8) example_referendum)
            (merge_regions_and_departments example_regions example_departments)))
       = compute_referendum_result_by_regions (snd (merge_referendum_and_areas example_referendum
            (merge_regions_and_departments example_regions example_departments)))"
proof -
  have h1: "vote_row (StrCode ''ZA'') 40 10 2 20 8 \<in> set example_referendum" by code_simp
  have h2: "contains_Z (normalize_code (Department_code (vote_row (StrCode ''ZA'') 40 10 2 20 8)))"
    by code_simp
  from excluded_records_absent [OF h1 h2] h1 h2 show ?thesis by blast
qed

section \<open>Effect on the tables passed in\<close>



section \<open>The ratio\<close>

subsection \<open>The error of a rounded quotient of rounded integers\<close>

lemma rounding_error:
  assumes "float64_rounding rnd" and "1 / 2 ^ 1022 \<le> \<bar>x\<bar>" and "\<bar>x\<bar> \<le> 2 ^ 1023"
  shows "\<bar>rnd x - x\<bar> \<le> \<bar>x\<bar> / 2 ^ 53"
  using assms unfolding float64_rounding_def by blast

lemma rounding_int:
  assumes R: "float64_rounding rnd" and n: "\<bar>n\<bar> \<le> 2 ^ 63"
  shows "\<bar>rnd (of_int n) - of_int n\<bar> \<le> \<bar>of_int n :: real\<bar> / 2 ^ 53"
proof (cases "n = 0")
  case True
  then show ?thesis using R by (simp add: float64_rounding_def)
next
  case False
  then have "1 \<le> \<bar>n\<bar>" by simp
  then have lo: "(1::real) \<le> \<bar>of_int n\<bar>" by linarith
  have "(1::real) / 2 ^ 1022 \<le> 1" by simp
  with lo have l: "1 / 2 ^ 1022 \<le> \<bar>of_int n :: real\<bar>" by linarith
  have "\<bar>of_int n :: real\<bar> \<le> 2 ^ 63" using n by (metis of_int_abs of_int_le_iff of_int_numeral of_int_power)
  moreover have "(2::real) ^ 63 \<le> 2 ^ 1023" by simp
  ultimately have h: "\<bar>of_int n :: real\<bar> \<le> 2 ^ 1023" by linarith
  show ?thesis by (rule rounding_error[OF R l h])
qed

lemma rel_bounds:
  fixes y x u :: real
  assumes "\<bar>y - x\<bar> \<le> \<bar>x\<bar> * u" and "0 \<le> u" 
  shows "\<bar>y\<bar> \<le> \<bar>x\<bar> * (1 + u)" and "\<bar>x\<bar> * (1 - u) \<le> \<bar>y\<bar>"
proof -
  have "\<bar>y\<bar> \<le> \<bar>x\<bar> + \<bar>y - x\<bar>" by linarith
  then show "\<bar>y\<bar> \<le> \<bar>x\<bar> * (1 + u)" using assms by (simp add: algebra_simps)
  have "\<bar>x\<bar> \<le> \<bar>y\<bar> + \<bar>y - x\<bar>" by linarith
  then show "\<bar>x\<bar> * (1 - u) \<le> \<bar>y\<bar>" using assms by (simp add: algebra_simps)
qed

lemma frac_aux:
  fixes b t u :: real
  assumes "0 < t" and "u < 1"
  shows "(2 * u * b * t) / (t * (1 - u) * t) = (b / t) * (2 * u / (1 - u))"
  using assms by (simp add: field_simps)

lemma quotient_error:
  fixes a s a' s' u :: real
  assumes a: "\<bar>a' - a\<bar> \<le> \<bar>a\<bar> * u" and s: "\<bar>s' - s\<bar> \<le> \<bar>s\<bar> * u"
    and u: "0 \<le> u" "u \<le> 1 / 5" and s0: "s \<noteq> 0"
  shows "s' \<noteq> 0" and "\<bar>a' / s' - a / s\<bar> \<le> \<bar>a / s\<bar> * (5 / 2 * u)"
proof -
  have sl: "\<bar>s\<bar> * (1 - u) \<le> \<bar>s'\<bar>" using rel_bounds(2)[OF s u(1)] .
  have spos: "0 < \<bar>s\<bar> * (1 - u)" using s0 u by simp
  then have s'pos: "0 < \<bar>s'\<bar>" using sl by linarith
  then show s'0: "s' \<noteq> 0" by auto
  have "a' / s' - a / s = (a' * s - a * s') / (s' * s)"
    using s0 s'0 by (simp add: field_simps)
  also have "a' * s - a * s' = (a' - a) * s - a * (s' - s)" by (simp add: algebra_simps)
  finally have eq: "\<bar>a' / s' - a / s\<bar> = \<bar>(a' - a) * s - a * (s' - s)\<bar> / (\<bar>s'\<bar> * \<bar>s\<bar>)"
    by (simp add: abs_mult)
  have "\<bar>(a' - a) * s - a * (s' - s)\<bar> \<le> \<bar>a' - a\<bar> * \<bar>s\<bar> + \<bar>a\<bar> * \<bar>s' - s\<bar>"
    by (metis abs_mult abs_triangle_ineq4)
  also have "\<dots> \<le> (\<bar>a\<bar> * u) * \<bar>s\<bar> + \<bar>a\<bar> * (\<bar>s\<bar> * u)"
    by (intro add_mono mult_right_mono mult_left_mono a s) simp_all
  finally have num: "\<bar>(a' - a) * s - a * (s' - s)\<bar> \<le> 2 * u * \<bar>a\<bar> * \<bar>s\<bar>" by (simp add: algebra_simps)
  have den: "\<bar>s\<bar> * (1 - u) * \<bar>s\<bar> \<le> \<bar>s'\<bar> * \<bar>s\<bar>" using sl by (intro mult_right_mono) simp_all
  have denpos: "0 < \<bar>s\<bar> * (1 - u) * \<bar>s\<bar>" using spos s0 by simp
  have "\<bar>a' / s' - a / s\<bar> \<le> (2 * u * \<bar>a\<bar> * \<bar>s\<bar>) / (\<bar>s\<bar> * (1 - u) * \<bar>s\<bar>)"
    unfolding eq using num den denpos
    by (intro frac_le) (simp_all add: u)
  also have "\<dots> = \<bar>a / s\<bar> * (2 * u / (1 - u))"
    using frac_aux[of "\<bar>s\<bar>" u "\<bar>a\<bar>"] s0 u by (simp add: abs_divide)
  also have "\<dots> \<le> \<bar>a / s\<bar> * (5 / 2 * u)"
  proof (intro mult_left_mono)
    have "u * (5 * u) \<le> u * 1" using u by (intro mult_left_mono) simp_all
    then have "2 * u \<le> 5 / 2 * u * (1 - u)" by (simp add: algebra_simps)
    then show "2 * u / (1 - u) \<le> 5 / 2 * u" using u by (simp add: pos_divide_le_eq)
  qed simp
  finally show "\<bar>a' / s' - a / s\<bar> \<le> \<bar>a / s\<bar> * (5 / 2 * u)" .
qed

lemma abs_int_le_real:
  assumes "\<bar>n\<bar> \<le> 2 ^ 63"
  shows "\<bar>of_int n :: real\<bar> \<le> 2 ^ 63"
proof -
  have "of_int \<bar>n\<bar> \<le> (of_int (2 ^ 63) :: real)" using assms by (simp only: of_int_le_iff)
  then show ?thesis by simp
qed

lemma ratio_error:
  fixes a s :: int
  assumes R: "float64_rounding rnd" and a: "\<bar>a\<bar> \<le> 2 ^ 63" and s: "\<bar>s\<bar> \<le> 2 ^ 63"
    and s0: "s \<noteq> 0"
  shows "rnd (of_int s) \<noteq> 0"
    and "\<bar>rnd (rnd (of_int a) / rnd (of_int s)) - of_int a / of_int s\<bar>
           \<le> \<bar>of_int a / of_int s :: real\<bar> / 2 ^ 51"
proof -
  define u :: real where "u = 1 / 2 ^ 53"
  define A :: real where "A = of_int a"
  define S :: real where "S = of_int s"
  define x where "x = rnd A / rnd S"
  have u: "0 \<le> u" "u \<le> 1 / 5" by (simp_all add: u_def)
  have S0: "S \<noteq> 0" using s0 by (simp add: S_def)
  have ea: "\<bar>rnd A - A\<bar> \<le> \<bar>A\<bar> * u"
    using rounding_int[OF R a] by (simp add: A_def u_def)
  have es: "\<bar>rnd S - S\<bar> \<le> \<bar>S\<bar> * u"
    using rounding_int[OF R s] by (simp add: S_def u_def)
  show "rnd (of_int s) \<noteq> 0"
    using quotient_error(1)[OF ea es u S0] by (simp add: S_def)
  have ex: "\<bar>x - A / S\<bar> \<le> \<bar>A / S\<bar> * (5 / 2 * u)"
    using quotient_error(2)[OF ea es u S0] by (simp add: x_def)
  have u52: "0 \<le> 5 / 2 * u" using u by simp
  have xu: "\<bar>x\<bar> \<le> \<bar>A / S\<bar> * (1 + 5 / 2 * u)" using rel_bounds(1)[OF ex u52] .
  have xl: "\<bar>A / S\<bar> * (1 - 5 / 2 * u) \<le> \<bar>x\<bar>" using rel_bounds(2)[OF ex u52] .
  have rx: "\<bar>rnd x - x\<bar> \<le> \<bar>x\<bar> * u"
  proof (cases "a = 0")
    case True
    then have "x = 0" using R by (simp add: x_def A_def float64_rounding_def)
    then show ?thesis using R by (simp add: float64_rounding_def)
  next
    case False
    then have "1 \<le> \<bar>a\<bar>" by simp
    then have A1: "1 \<le> \<bar>A\<bar>" unfolding A_def by linarith
    have "1 \<le> \<bar>s\<bar>" using s0 by simp
    then have S1: "1 \<le> \<bar>S\<bar>" unfolding S_def by linarith
    have A63: "\<bar>A\<bar> \<le> 2 ^ 63" unfolding A_def by (rule abs_int_le_real[OF a])
    have S63: "\<bar>S\<bar> \<le> 2 ^ 63" unfolding S_def by (rule abs_int_le_real[OF s])
    have q: "\<bar>A / S\<bar> = \<bar>A\<bar> / \<bar>S\<bar>" by (simp add: abs_divide)
    have ql: "1 / 2 ^ 63 \<le> \<bar>A / S\<bar>"
      unfolding q using A1 S1 S63 by (intro frac_le) simp_all
    have "\<bar>A\<bar> / \<bar>S\<bar> \<le> 2 ^ 63 / 1"
      using A63 S1 by (intro frac_le) simp_all
    then have qu: "\<bar>A / S\<bar> \<le> 2 ^ 63" unfolding q by simp
    have half: "(1::real) / 2 \<le> 1 - 5 / 2 * u" by (simp add: u_def)
    have two: "1 + 5 / 2 * u \<le> (2::real)" by (simp add: u_def)
    have m1: "(1 / 2 ^ 63) * (1 / 2) \<le> \<bar>A / S\<bar> * (1 - 5 / 2 * u)"
      using ql half by (intro mult_mono) simp_all
    have e1: "(1 / 2 ^ 63) * (1 / 2) = (1::real) / 2 ^ 64" by simp
    have "(1::real) / 2 ^ 64 \<le> \<bar>x\<bar>" using m1 xl unfolding e1 by (rule order_trans)
    moreover have "(1::real) / 2 ^ 1022 \<le> 1 / 2 ^ 64"
      by (intro divide_left_mono power_increasing) simp_all
    ultimately have lo: "1 / 2 ^ 1022 \<le> \<bar>x\<bar>" by linarith
    have m2: "\<bar>A / S\<bar> * (1 + 5 / 2 * u) \<le> 2 ^ 63 * 2"
      using qu two u52 by (intro mult_mono) simp_all
    have e2: "(2::real) ^ 63 * 2 = 2 ^ 64" by simp
    have "\<bar>x\<bar> \<le> 2 ^ 64" using xu m2 unfolding e2 by (rule order_trans)
    moreover have "(2::real) ^ 64 \<le> 2 ^ 1023" by (intro power_increasing) simp_all
    ultimately have hi: "\<bar>x\<bar> \<le> 2 ^ 1023" by linarith
    show ?thesis using rounding_error[OF R lo hi] by (simp add: u_def)
  qed
  have "\<bar>rnd x - A / S\<bar> \<le> \<bar>rnd x - x\<bar> + \<bar>x - A / S\<bar>" by linarith
  also have "\<dots> \<le> \<bar>x\<bar> * u + \<bar>A / S\<bar> * (5 / 2 * u)" using rx ex by linarith
  also have "\<dots> \<le> (\<bar>A / S\<bar> * (1 + 5 / 2 * u)) * u + \<bar>A / S\<bar> * (5 / 2 * u)"
    using xu u(1) by (intro add_mono mult_right_mono) simp_all
  also have "\<dots> = \<bar>A / S\<bar> * ((1 + 5 / 2 * u) * u + 5 / 2 * u)" by (simp add: algebra_simps)
  also have "\<dots> \<le> \<bar>A / S\<bar> * (4 * u)"
  proof (intro mult_left_mono)
    have "u * (5 * u) \<le> u * 1" using u by (intro mult_left_mono) simp_all
    then show "(1 + 5 / 2 * u) * u + 5 / 2 * u \<le> 4 * u" by (simp add: algebra_simps)
  qed simp
  also have "\<dots> = \<bar>A / S\<bar> / 2 ^ 51" by (simp add: u_def)
  finally show "\<bar>rnd (rnd (of_int a) / rnd (of_int s)) - of_int a / of_int s\<bar>
           \<le> \<bar>of_int a / of_int s :: real\<bar> / 2 ^ 51"
    by (simp add: x_def A_def S_def)
qed

subsection \<open>The ratio column\<close>

lemma in_int64_abs: "in_int64 n \<Longrightarrow> \<bar>n\<bar> \<le> 2 ^ 63"
  unfolding in_int64_def by (rule abs_leI) simp_all

text \<open>
  Claim C7, as stated: the ratio is Choice A divided by Choice A + Choice B. It fails
  when the addition leaves the range of int64: for Choice A = Choice B = \<open>2^62\<close> the
  sum of the columns is \<open>-2^63\<close> and the ratio is \<open>-1/2\<close>, where the quotient is \<open>1/2\<close>.
  (All numbers of this example are float64 numbers, so nothing is rounded.)
\<close>

theorem ratio_zero_division_counterexample:
  "map ratio (fst (plot_referendum_map (\<lambda>x. x) example_geo
      [result_row ''84'' ''Auvergne'' 0 0 0 4611686018427387904 4611686018427387904]))
     = [Some (Finite (- (1 / 2)))]
   \<and> (of_int 4611686018427387904 / of_int (4611686018427387904 + 4611686018427387904) :: real)
     = 1 / 2"
  by code_simp

text \<open>
  Claim C7, amended: on every row of the regional results after \<open>plot_referendum_map\<close>,
  and on every row of the table it returns, when Choice A + Choice B is zero the ratio is
  a value that is not finite (NaN or an infinity), and no error is raised; when
  Choice A + Choice B is not zero and within the range of int64, as Choice A is, the
  ratio is a finite number that differs from the quotient of Choice A by
  Choice A + Choice B by at most the relative error \<open>2^-51\<close> of float64 arithmetic.
\<close>

theorem ratio_zero_division:
  assumes "float64_rounding rnd"
    and "r \<in> set (fst (plot_referendum_map rnd regions_geo results))
         \<or> r \<in> snd ` set (snd (plot_referendum_map rnd regions_geo results))"
  shows "(Choice_A r + Choice_B r = 0 \<longrightarrow> (\<exists>v. ratio r = Some v \<and> \<not> is_finite v))
       \<and> (Choice_A r + Choice_B r \<noteq> 0 \<and> in_int64 (Choice_A r)
            \<and> in_int64 (Choice_A r + Choice_B r) \<longrightarrow>
          (\<exists>q. ratio r = Some (Finite q)
             \<and> \<bar>q - of_int (Choice_A r) / of_int (Choice_A r + Choice_B r)\<bar>
                 \<le> \<bar>of_int (Choice_A r) / of_int (Choice_A r + Choice_B r) :: real\<bar> / 2 ^ 51))"
proof -
  have "r \<in> set (fst (plot_referendum_map rnd regions_geo results))"
    using assms(2) plot_gdf_rows by auto
  then have eq: "ratio r = Some (ratio_of rnd (Choice_A r) (Choice_B r))"
    by (rule plot_row_ratio)
  have r0: "rnd 0 = 0" using assms(1) by (simp add: float64_rounding_def)
  have zero: "\<exists>v. ratio r = Some v \<and> \<not> is_finite v" if "Choice_A r + Choice_B r = 0"
    using that r0 by (simp add: eq ratio_of_def true_divide_def to_float_def wrap_int64_def)
  have fin: "\<exists>q. ratio r = Some (Finite q)
             \<and> \<bar>q - of_int (Choice_A r) / of_int (Choice_A r + Choice_B r)\<bar>
                 \<le> \<bar>of_int (Choice_A r) / of_int (Choice_A r + Choice_B r) :: real\<bar> / 2 ^ 51"
    if s0: "Choice_A r + Choice_B r \<noteq> 0" and a: "in_int64 (Choice_A r)"
      and s: "in_int64 (Choice_A r + Choice_B r)"
  proof -
    have w: "wrap_int64 (Choice_A r + Choice_B r) = Choice_A r + Choice_B r"
      using s by (rule wrap_int64_id)
    note e = ratio_error[OF assms(1) in_int64_abs[OF a] in_int64_abs[OF s] s0]
    have "ratio r = Some (Finite (rnd (rnd (of_int (Choice_A r))
                                        / rnd (of_int (Choice_A r + Choice_B r)))))"
      using e(1) by (simp add: eq ratio_of_def true_divide_def to_float_def w)
    with e(2) show ?thesis by blast
  qed
  show ?thesis using zero fin by blast
qed

theorem ratio_zero_division_witness:
  "float64_rounding (\<lambda>x. x)
   \<and> (result_row ''11'' ''Ile-de-France'' 10 10 0 0 0)\<lparr>ratio := Some NaN\<rparr>
       \<in> set (fst (plot_referendum_map (\<lambda>x. x) example_geo
                 [result_row ''11'' ''Ile-de-France'' 10 10 0 0 0]))
   \<and> Choice_A ((result_row ''11'' ''Ile-de-France'' 10 10 0 0 0)\<lparr>ratio := Some NaN\<rparr>)
       + Choice_B ((result_row ''11'' ''Ile-de-France'' 10 10 0 0 0)\<lparr>ratio := Some NaN\<rparr>) = 0
   \<and> (\<exists>v. ratio ((result_row ''11'' ''Ile-de-France'' 10 10 0 0 0)\<lparr>ratio := Some NaN\<rparr>) = Some v
          \<and> \<not> is_finite v)"
proof -
  have h0: "float64_rounding (\<lambda>x. x)" by (simp add: float64_rounding_def mono_def)
  have h1: "(result_row ''11'' ''Ile-de-France'' 10 10 0 0 0)\<lparr>ratio := Some NaN\<rparr>
       \<in> set (fst (plot_referendum_map (\<lambda>x. x) example_geo
                 [result_row ''11'' ''Ile-de-France'' 10 10 0 0 0]))"
    by code_simp
  have h2: "Choice_A ((result_row ''11'' ''Ile-de-France'' 10 10 0 0 0)\<lparr>ratio := Some NaN\<rparr>)
       + Choice_B ((result_row ''11'' ''Ile-de-France'' 10 10 0 0 0)\<lparr>ratio := Some NaN\<rparr>) = 0"
    by code_simp
  from ratio_zero_division [OF h0 disjI1, OF h1] h0 h1 h2 show ?thesis by blast
qed

text \<open>
  Claim C8, as stated: for counts that are not negative and have a positive sum, the ratio
  is between 0 and 1. It fails when the addition leaves the range of int64: for
  Choice A = Choice B = \<open>2^62\<close> the ratio is \<open>-1/2\<close>.
\<close>

theorem ratio_bounds_counterexample:
  "(0::int) \<le> 4611686018427387904
   \<and> (0::int) < 4611686018427387904 + 4611686018427387904
   \<and> map ratio (fst (plot_referendum_map (\<lambda>x. x) example_geo
        [result_row ''84'' ''Auvergne'' 0 0 0 4611686018427387904 4611686018427387904]))
      = [Some (Finite (- (1 / 2)))]
   \<and> \<not> (0::real) \<le> - (1 / 2)"
  by code_simp

text \<open>
  Claim C8, amended: on every row of the regional results after \<open>plot_referendum_map\<close>,
  and on every row of the table it returns, whose counts Choice A and Choice B are not
  negative and have a positive sum within the range of int64, the ratio is a finite
  number between 0 and 1. The rounding \<open>rnd\<close> is any monotone function that keeps 0 and
  1, as rounding to the nearest float64 does.
\<close>

theorem ratio_bounds:
  assumes "mono rnd" and "rnd 0 = 0" and "rnd 1 = 1"
    and "r \<in> set (fst (plot_referendum_map rnd regions_geo results))
         \<or> r \<in> snd ` set (snd (plot_referendum_map rnd regions_geo results))"
    and "0 \<le> Choice_A r" and "0 \<le> Choice_B r" and "0 < Choice_A r + Choice_B r"
    and "in_int64 (Choice_A r + Choice_B r)"
  shows "\<exists>q. ratio r = Some (Finite q) \<and> 0 \<le> q \<and> q \<le> 1"
proof -
  have "r \<in> set (fst (plot_referendum_map rnd regions_geo results))"
    using assms(4) plot_gdf_rows by auto
  then have eq: "ratio r = Some (ratio_of rnd (Choice_A r) (Choice_B r))"
    by (rule plot_row_ratio)
  have w: "wrap_int64 (Choice_A r + Choice_B r) = Choice_A r + Choice_B r"
    using assms(8) by (rule wrap_int64_id)
  let ?a = "to_float rnd (Choice_A r)" and ?s = "to_float rnd (Choice_A r + Choice_B r)"
  have a0: "0 \<le> ?a"
    using monoD[OF assms(1), of 0 "of_int (Choice_A r)"] assms(2,5) by (simp add: to_float_def)
  have as: "?a \<le> ?s"
    using monoD[OF assms(1), of "of_int (Choice_A r)" "of_int (Choice_A r + Choice_B r)"] assms(6)
    by (simp add: to_float_def)
  have "1 \<le> Choice_A r + Choice_B r" using assms(7) by simp
  then have "(1::real) \<le> of_int (Choice_A r + Choice_B r)" by linarith
  then have s1: "1 \<le> ?s"
    using monoD[OF assms(1), of 1 "of_int (Choice_A r + Choice_B r)"] assms(3)
    by (simp add: to_float_def)
  then have spos: "0 < ?s" by linarith
  have q0: "0 \<le> ?a / ?s" using a0 spos by simp
  have q1: "?a / ?s \<le> 1" using as spos by simp
  have r0: "0 \<le> rnd (?a / ?s)" using monoD[OF assms(1) q0] assms(2) by simp
  have r1: "rnd (?a / ?s) \<le> 1" using monoD[OF assms(1) q1] assms(3) by simp
  have "ratio r = Some (Finite (rnd (?a / ?s)))"
    using spos by (simp add: eq ratio_of_def true_divide_def w)
  with r0 r1 show ?thesis by blast
qed

theorem ratio_bounds_witness:
  "mono (\<lambda>x::real. x)
   \<and> (result_row ''84'' ''Auvergne-Rhone-Alpes'' 150 45 10 70 60)\<lparr>ratio := Some (Finite (7 / 13))\<rparr>
       \<in> set (fst (plot_referendum_map (\<lambda>x. x) example_geo
                 [result_row ''84'' ''Auvergne-Rhone-Alpes'' 150 45 10 70 60]))
   \<and> in_int64 (Choice_A ((result_row ''84'' ''Auvergne-Rhone-Alpes'' 150 45 10 70 60)
                    \<lparr>ratio := Some (Finite (7 / 13))\<rparr>)
               + Choice_B ((result_row ''84'' ''Auvergne-Rhone-Alpes'' 150 45 10 70 60)
                    \<lparr>ratio := Some (Finite (7 / 13))\<rparr>))
   \<and> (\<exists>q. ratio ((result_row ''84'' ''Auvergne-Rhone-Alpes'' 150 45 10 70 60)
                    \<lparr>ratio := Some (Finite (7 / 13))\<rparr>) = Some (Finite q)
          \<and> 0 \<le> q \<and> q \<le> 1)"
proof -
  let ?r = "(result_row ''84'' ''Auvergne-Rhone-Alpes'' 150 45 10 70 60)
              \<lparr>ratio := Some (Finite (7 / 13))\<rparr>"
  have h1: "mono (\<lambda>x::real. x)" by (simp add: mono_def)
  have h4: "?r \<in> set (fst (plot_referendum_map (\<lambda>x. x) example_geo
                 [result_row ''84'' ''Auvergne-Rhone-Alpes'' 150 45 10 70 60]))"
    by code_simp
  have h5: "0 \<le> Choice_A ?r" by code_simp
  have h6: "0 \<le> Choice_B ?r" by code_simp
  have h7: "0 < Choice_A ?r + Choice_B ?r" by code_simp
  have h8: "in_int64 (Choice_A ?r + Choice_B ?r)" by code_simp
  have c: "\<exists>q. ratio ?r = Some (Finite q) \<and> 0 \<le> q \<and> q \<le> 1"
    by (rule ratio_bounds [OF h1 _ _ disjI1, OF _ _ h4 h5 h6 h7 h8]) simp_all
  from h1 h4 h8 c show ?thesis by blast
qed

section \<open>Join cardinality\<close>

text \<open>
  Claim C3, as stated: the merged table never has more rows than the referendum table has
  after the exclusion. It fails when the area table lists a department code twice: the
  inner merge pairs the vote record with both area rows.
\<close>

theorem join_cardinality_counterexample:
  "\<not> length (snd (merge_referendum_and_areas
        [vote_row (IntCode 1) 100 10 1 50 39]
        [area_of ''84'' (Some ''Auvergne'') ''01'' ''Ain'',
         area_of ''84'' (Some ''Auvergne'') ''01'' ''Ain bis'']))
     \<le> length (drop_Z (assign_code_dep [vote_row (IntCode 1) 100 10 1 50 39]))"
  by code_simp

text \<open>
  Claim C3, amended: when the department codes of the area table are pairwise distinct,
  the merged table has at most as many rows as the referendum table has after the
  exclusion of the Z codes, and as many exactly when every surviving record's normalized
  code is the department code of some area row.
\<close>

theorem join_cardinality:
  assumes "distinct (map code_dep areas)"
  shows "length (snd (merge_referendum_and_areas referendum areas))
           \<le> length (drop_Z (assign_code_dep referendum))
       \<and> (length (snd (merge_referendum_and_areas referendum areas))
            = length (drop_Z (assign_code_dep referendum))
          \<longleftrightarrow> (\<forall>v \<in> set (drop_Z (assign_code_dep referendum)).
                 \<exists>a \<in> set areas. ref_code_dep v = Some (code_dep a)))"
proof -
  let ?kept = "drop_Z (assign_code_dep referendum)"
  let ?f = "\<lambda>l :: vote_record. length (filter (\<lambda>a. Some (code_dep a) = ref_code_dep l) areas)"
  have d: "distinct (map (\<lambda>a. Some (code_dep a)) areas)"
    using assms by (simp add: distinct_map inj_on_def)
  have cnt: "?f l = (if ref_code_dep l \<in> (\<lambda>a. Some (code_dep a)) ` set areas then 1 else 0)"
    for l :: vote_record
    using count_distinct_key[OF d] by simp
  have le1: "\<forall>x \<in> set ?kept. ?f x \<le> 1" by (simp add: cnt)
  have len: "length (snd (merge_referendum_and_areas referendum areas)) = sum_list (map ?f ?kept)"
    by (simp add: merge_referendum_and_areas_def Let_def length_merge_inner)
  have one: "?f v = 1 \<longleftrightarrow> (\<exists>a \<in> set areas. ref_code_dep v = Some (code_dep a))"
    for v :: vote_record
    by (auto simp: cnt)
  show ?thesis
    unfolding len using sum_le_length[OF le1] by (simp only: one)
qed

theorem join_cardinality_witness:
  "distinct (map code_dep [area_of ''84'' (Some ''Auvergne'') ''01'' ''Ain''])
   \<and> (length (snd (merge_referendum_and_areas
        [vote_row (IntCode 1) 100 10 1 50 39, vote_row (StrCode ''99'') 80 10 1 30 39]
        [area_of ''84'' (Some ''Auvergne'') ''01'' ''Ain'']))
     \<le> length (drop_Z (assign_code_dep
        [vote_row (IntCode 1) 100 10 1 50 39, vote_row (StrCode ''99'') 80 10 1 30 39]))
     \<and> (length (snd (merge_referendum_and_areas
        [vote_row (IntCode 1) 100 10 1 50 39, vote_row (StrCode ''99'') 80 10 1 30 39]
        [area_of ''84'' (Some ''Auvergne'') ''01'' ''Ain'']))
        = length (drop_Z (assign_code_dep
        [vote_row (IntCode 1) 100 10 1 50 39, vote_row (StrCode ''99'') 80 10 1 30 39]))
       \<longleftrightarrow> (\<forall>v \<in> set (drop_Z (assign_code_dep
        [vote_row (IntCode 1) 100 10 1 50 39, vote_row (StrCode ''99'') 80 10 1 30 39])).
                 \<exists>a \<in> set [area_of ''84'' (Some ''Auvergne'') ''01'' ''Ain''].
                   ref_code_dep v = Some (code_dep a))))"
proof -
  have h: "distinct (map code_dep [area_of ''84'' (Some ''Auvergne'') ''01'' ''Ain''])"
    by simp
  from h join_cardinality [OF h] show ?thesis by (rule conjI)
qed

section \<open>Normalization of the department codes\<close>

lemma of_char_digit_char: "d < 10 \<Longrightarrow> (of_char (digit_char d) :: nat) = 48 + d"
  by (simp add: digit_char_def)

lemma is_digit_iff: "is_digit c \<longleftrightarrow> 48 \<le> (of_char c :: nat) \<and> (of_char c :: nat) \<le> 57"
  by (simp add: is_digit_def less_eq_char_def)

lemma is_digit_digit_char: "d < 10 \<Longrightarrow> is_digit (digit_char d)"
  by (simp add: is_digit_iff of_char_digit_char)

lemma digit_val_digit_char: "d < 10 \<Longrightarrow> digit_val (digit_char d) = d"
  by (simp add: digit_val_def of_char_digit_char)

lemma is_digit_not_sign: "is_digit c \<Longrightarrow> c \<noteq> CHR ''-'' \<and> c \<noteq> CHR ''+''"
  by (auto simp: is_digit_iff)

lemma is_digit_zero: "is_digit CHR ''0''" and digit_val_zero: "digit_val CHR ''0'' = 0"
  by (simp_all add: is_digit_iff digit_val_def)

lemma str_nat_digits:
  "str_nat n \<noteq> [] \<and> list_all is_digit (str_nat n)
   \<and> foldl (\<lambda>acc c. 10 * acc + digit_val c) 0 (str_nat n) = n"
proof (induction n rule: str_nat.induct)
  case (1 n)
  show ?case
  proof (cases "n < 10")
    case True
    then show ?thesis
      by (simp add: str_nat.simps[of n] is_digit_digit_char digit_val_digit_char)
  next
    case False
    then have IH: "str_nat (n div 10) \<noteq> []" "list_all is_digit (str_nat (n div 10))"
      "foldl (\<lambda>acc c. 10 * acc + digit_val c) 0 (str_nat (n div 10)) = n div 10"
      using 1 by simp_all
    have m: "n mod 10 < 10" by simp
    from False IH show ?thesis
      by (simp add: str_nat.simps[of n] is_digit_digit_char[OF m] digit_val_digit_char[OF m])
  qed
qed

lemma nat_of_str_str_nat: "nat_of_str (str_nat n) = Some n"
  using str_nat_digits[of n] by (simp add: nat_of_str_def)

lemma int_of_str_digits:
  assumes "s \<noteq> []" and "list_all is_digit s"
  shows "int_of_str s = map_option int (nat_of_str s)"
proof -
  obtain c rest where s: "s = c # rest" using assms(1) by (cases s) auto
  then have "is_digit c" using assms(2) by simp
  then have "c \<noteq> CHR ''-''" "c \<noteq> CHR ''+''" using is_digit_not_sign by auto
  then show ?thesis by (simp add: s int_of_str_def)
qed

lemma int_of_str_str_int: "int_of_str (str_int i) = Some i"
proof (cases "i < 0")
  case True
  then show ?thesis by (simp add: str_int_def int_of_str_def nat_of_str_str_nat)
next
  case False
  have "int_of_str (str_nat (nat i)) = map_option int (nat_of_str (str_nat (nat i)))"
    using str_nat_digits[of "nat i"] by (intro int_of_str_digits) simp_all
  with False show ?thesis by (simp add: str_int_def nat_of_str_str_nat)
qed

lemma length_zfill_short: "length s \<le> 2 \<Longrightarrow> length (zfill 2 s) = 2"
  by (cases s) (auto simp: zfill_def)

lemma nat_of_str_leading_zero: "nat_of_str s = Some n \<Longrightarrow> nat_of_str (CHR ''0'' # s) = Some n"
  by (auto simp: nat_of_str_def is_digit_zero digit_val_zero split: if_splits)

lemma int_of_str_zfill_short:
  assumes "length s \<le> 2" and "int_of_str s = Some v"
  shows "int_of_str (zfill 2 s) = Some v"
proof (cases "2 \<le> length s")
  case True
  then show ?thesis using assms(2) by (simp add: zfill_def)
next
  case False
  then have "length s < 2" by simp
  moreover have "s \<noteq> []" using assms(2) by (auto simp: int_of_str_def)
  ultimately obtain c where s: "s = [c]" by (cases s) auto
  have sign: "c \<noteq> CHR ''-''" "c \<noteq> CHR ''+''"
    using assms(2) by (auto simp: s int_of_str_def nat_of_str_def)
  then have n: "map_option int (nat_of_str [c]) = Some v"
    using assms(2) by (simp add: s int_of_str_def)
  then obtain k where k: "nat_of_str [c] = Some k" "v = int k" by auto
  have z: "zfill 2 s = [CHR ''0'', c]" using sign by (simp add: s zfill_def)
  have "int_of_str [CHR ''0'', c] = map_option int (nat_of_str [CHR ''0'', c])"
    by (simp add: int_of_str_def)
  also have "\<dots> = Some v" using nat_of_str_leading_zero[OF k(1)] k(2) by simp
  finally show ?thesis by (simp add: z)
qed

lemma code_value_text: "code_value c = Some v \<Longrightarrow> int_of_str (astype_str c) = Some v"
  by (cases c) (simp_all add: int_of_str_str_int)

lemma length_str_nat_short: "length (str_nat n) \<le> 2 \<longleftrightarrow> n < 100"
proof (cases "n < 10")
  case True
  then show ?thesis by (simp add: str_nat.simps[of n])
next
  case False
  show ?thesis
  proof (cases "n div 10 < 10")
    case True
    with False show ?thesis by (simp add: str_nat.simps[of n] str_nat.simps[of "n div 10"])
  next
    case False
    then have "\<not> n < 10" by simp
    with False have "length (str_nat n) = length (str_nat (n div 10 div 10)) + 2"
      by (simp add: str_nat.simps[of n] str_nat.simps[of "n div 10"])
    moreover have "str_nat (n div 10 div 10) \<noteq> []" using str_nat_digits by blast
    ultimately have "2 < length (str_nat n)" by simp
    with False show ?thesis by simp
  qed
qed

lemma length_str_nat_one: "length (str_nat n) \<le> 1 \<longleftrightarrow> n < 10"
proof (cases "n < 10")
  case True
  then show ?thesis by (simp add: str_nat.simps[of n])
next
  case False
  have "str_nat (n div 10) \<noteq> []" using str_nat_digits by blast
  then have "0 < length (str_nat (n div 10))" by simp
  with False show ?thesis by (simp add: str_nat.simps[of n])
qed

lemma short_int_codes: "length (astype_str (IntCode i)) \<le> 2 \<longleftrightarrow> - 9 \<le> i \<and> i \<le> 99"
proof (cases "i < 0")
  case True
  then have "nat (- i) < 10 \<longleftrightarrow> - 9 \<le> i" by arith
  with True show ?thesis using length_str_nat_one[of "nat (- i)"] by (simp add: str_int_def)
next
  case False
  then have "nat i < 100 \<longleftrightarrow> i \<le> 99" by arith
  with False show ?thesis using length_str_nat_short[of "nat i"] by (simp add: str_int_def)
qed


text \<open>
  Claim C4: a department code whose text has at most two characters (an integer from
  \<open>-9\<close> to \<open>99\<close>, see \<open>short_int_codes\<close>, or a string of length at most 2) is
  normalized to a string of exactly two characters, and when the code has a numeric value
  the normalized string has the same one: 5 becomes \<open>05\<close>, \<open>12\<close> stays \<open>12\<close>.
\<close>

theorem normalization_width_value:
  assumes "length (astype_str c) \<le> 2"
  shows "length (normalize_code c) = 2
       \<and> (\<forall>v. code_value c = Some v \<longrightarrow> int_of_str (normalize_code c) = Some v)"
  using assms
  by (simp add: normalize_code_def length_zfill_short int_of_str_zfill_short code_value_text)


theorem normalization_width_value_witness:
  "length (astype_str (IntCode 5)) \<le> 2
   \<and> code_value (IntCode 5) = Some 5
   \<and> normalize_code (IntCode 5) = ''05''
   \<and> length (normalize_code (IntCode 5)) = 2
   \<and> int_of_str (normalize_code (IntCode 5)) = Some 5"
proof -
  have h: "length (astype_str (IntCode 5)) \<le> 2" by code_simp
  have v: "code_value (IntCode 5) = Some 5" by simp
  have n: "normalize_code (IntCode 5) = ''05''" by code_simp
  from normalization_width_value [OF h] h v n show ?thesis by blast
qed

section \<open>Aggregation by region\<close>

lemma set_map_filter_key:
  "set (List.map_filter f xs) = {y. \<exists>x \<in> set xs. f x = Some y}"
  by (induction xs) (auto split: option.splits)

lemma group_keys_perm:
  assumes "mset xs = mset ys"
  shows "group_keys xs = group_keys ys"
proof -
  have "set xs = set ys" using assms by (rule mset_eq_setD)
  then have "set (List.map_filter group_key xs) = set (List.map_filter group_key ys)"
    by (simp add: set_map_filter_key)
  then have "sorted_list_of_set (set (List.map_filter group_key xs))
           = sorted_list_of_set (set (List.map_filter group_key ys))" by simp
  then show ?thesis by (simp add: group_keys_def sorted_list_of_set_sort_remdups)
qed

lemma column_sum_mset:
  "column_sum col (map fst (filter P rows))
     = wrap_int64 (sum_mset (image_mset (\<lambda>row. col (fst row)) (filter_mset P (mset rows))))"
proof -
  have "sum_list (map (\<lambda>row. col (fst row)) (filter P rows))
        = sum_mset (mset (map (\<lambda>row. col (fst row)) (filter P rows)))"
    by (simp only: sum_mset_sum_list)
  then show ?thesis by (simp add: column_sum_def comp_def)
qed

lemma agg_sum_perm:
  assumes "mset xs = mset ys"
  shows "agg_sum k (group_rows k xs) = agg_sum k (group_rows k ys)"
  by (simp add: agg_sum_def group_rows_def column_sum_mset assms)

lemma result_row_key:
  assumes "out \<in> set (compute_referendum_result_by_regions rows)"
  shows "out = agg_sum (res_code_reg out, res_name_reg out)
                 (group_rows (res_code_reg out, res_name_reg out) rows)
       \<and> (res_code_reg out, res_name_reg out) \<in> set (group_keys rows)"
  using assms by (auto simp: compute_referendum_result_by_regions_def agg_sum_def)

lemma group_rows_region:
  assumes "\<forall>row \<in> set rows. code_reg (snd row) = R \<longrightarrow> name_reg (snd row) = Some N"
  shows "group_rows (R, N) rows = rows_of_region R rows"
proof -
  have "filter (\<lambda>row. group_key row = Some (R, N)) rows = filter (\<lambda>row. code_reg (snd row) = R) rows"
    using assms by (intro filter_cong) (auto simp: group_key_def)
  then show ?thesis by (simp add: group_rows_def rows_of_region_def)
qed


text \<open>
  Claim C1, as stated: at every region code \<open>R\<close> of the regional results, each sum is the
  sum of the column over all input rows of region code \<open>R\<close>. It fails when the rows of one
  region code carry two region names: the table is grouped by code and name, so the code
  has two rows, each with the sum of its own name only. It fails also when the sum leaves
  the range of int64: two rows of \<open>2^62\<close> registered voters give \<open>-2^63\<close>.
\<close>

theorem aggregation_sums_counterexample:
  "map res_code_reg (compute_referendum_result_by_regions
      [(vote_row (IntCode 1) 100 30 5 60 40, area_of ''84'' (Some ''Auvergne'') ''01'' ''Ain''),
       (vote_row (IntCode 3) 50 15 5 10 20, area_of ''84'' (Some ''Rhone-Alpes'') ''03'' ''Allier'')])
     = [''84'', ''84'']
   \<and> map Registered (compute_referendum_result_by_regions
      [(vote_row (IntCode 1) 100 30 5 60 40, area_of ''84'' (Some ''Auvergne'') ''01'' ''Ain''),
       (vote_row (IntCode 3) 50 15 5 10 20, area_of ''84'' (Some ''Rhone-Alpes'') ''03'' ''Allier'')])
     = [100, 50]
   \<and> sum_list (map Registered (rows_of_region ''84''
      [(vote_row (IntCode 1) 100 30 5 60 40, area_of ''84'' (Some ''Auvergne'') ''01'' ''Ain''),
       (vote_row (IntCode 3) 50 15 5 10 20, area_of ''84'' (Some ''Rhone-Alpes'') ''03'' ''Allier'')]))
     = 150
   \<and> map Registered (compute_referendum_result_by_regions
      [(vote_row (IntCode 1) 4611686018427387904 30 5 60 40,
          area_of ''84'' (Some ''Auvergne'') ''01'' ''Ain''),
       (vote_row (IntCode 3) 4611686018427387904 15 5 10 20,
          area_of ''84'' (Some ''Auvergne'') ''03'' ''Allier'')])
     = [- 9223372036854775808]
   \<and> sum_list (map Registered (rows_of_region ''84''
      [(vote_row (IntCode 1) 4611686018427387904 30 5 60 40,
          area_of ''84'' (Some ''Auvergne'') ''01'' ''Ain''),
       (vote_row (IntCode 3) 4611686018427387904 15 5 10 20,
          area_of ''84'' (Some ''Auvergne'') ''03'' ''Allier'')]))
     = 9223372036854775808"
  by code_simp

text \<open>
  Claim C1, amended: for every row of the regional results, of region code \<open>R\<close>, such
  that all input rows of region code \<open>R\<close> carry the region name of that row, each of the
  five sums equals the sum of the column over all input rows of region code \<open>R\<close>,
  provided that this sum is within the range of int64.
\<close>

theorem aggregation_sums:
  assumes "out \<in> set (compute_referendum_result_by_regions rows)"
    and "\<forall>row \<in> set rows. code_reg (snd row) = res_code_reg out \<longrightarrow>
           name_reg (snd row) = Some (res_name_reg out)"
  shows "(in_int64 (sum_list (map Registered (rows_of_region (res_code_reg out) rows))) \<longrightarrow>
            Registered out = sum_list (map Registered (rows_of_region (res_code_reg out) rows)))
       \<and> (in_int64 (sum_list (map Abstentions (rows_of_region (res_code_reg out) rows))) \<longrightarrow>
            Abstentions out = sum_list (map Abstentions (rows_of_region (res_code_reg out) rows)))
       \<and> (in_int64 (sum_list (map Null (rows_of_region (res_code_reg out) rows))) \<longrightarrow>
            Null out = sum_list (map Null (rows_of_region (res_code_reg out) rows)))
       \<and> (in_int64 (sum_list (map Choice_A (rows_of_region (res_code_reg out) rows))) \<longrightarrow>
            Choice_A out = sum_list (map Choice_A (rows_of_region (res_code_reg out) rows)))
       \<and> (in_int64 (sum_list (map Choice_B (rows_of_region (res_code_reg out) rows))) \<longrightarrow>
            Choice_B out = sum_list (map Choice_B (rows_of_region (res_code_reg out) rows)))"
proof -
  let ?k = "(res_code_reg out, res_name_reg out)"
  have out: "out = agg_sum ?k (group_rows ?k rows)"
    using result_row_key[OF assms(1)] by simp
  have g: "group_rows ?k rows = rows_of_region (res_code_reg out) rows"
    using assms(2) by (rule group_rows_region)
  have "out = agg_sum ?k (rows_of_region (res_code_reg out) rows)"
    using out g by simp
  then have
    "Registered out = Registered (agg_sum ?k (rows_of_region (res_code_reg out) rows))"
    "Abstentions out = Abstentions (agg_sum ?k (rows_of_region (res_code_reg out) rows))"
    "Null out = Null (agg_sum ?k (rows_of_region (res_code_reg out) rows))"
    "Choice_A out = Choice_A (agg_sum ?k (rows_of_region (res_code_reg out) rows))"
    "Choice_B out = Choice_B (agg_sum ?k (rows_of_region (res_code_reg out) rows))"
    by simp_all
  then show ?thesis by (simp add: agg_sum_def column_sum_def wrap_int64_id)
qed

theorem aggregation_sums_witness:
  "result_row ''84'' ''Auvergne-Rhone-Alpes'' 150 45 10 70 60
     \<in> set (compute_referendum_result_by_regions (snd (merge_referendum_and_areas example_referendum
              (merge_regions_and_departments example_regions example_departments))))
   \<and> in_int64 (sum_list (map Registered (rows_of_region ''84''
              (snd (merge_referendum_and_areas example_referendum
              (merge_regions_and_departments example_regions example_departments))))))
   \<and> Registered (result_row ''84'' ''Auvergne-Rhone-Alpes'' 150 45 10 70 60)
       = sum_list (map Registered (rows_of_region ''84''
              (snd (merge_referendum_and_areas example_referendum
              (merge_regions_and_departments example_regions example_departments)))))"
proof -
  let ?rows = "snd (merge_referendum_and_areas example_referendum
              (merge_regions_and_departments example_regions example_departments))"
  let ?out = "result_row ''84'' ''Auvergne-Rhone-Alpes'' 150 45 10 70 60"
  have h1: "?out \<in> set (compute_referendum_result_by_regions ?rows)" by code_simp
  have h2: "\<forall>row \<in> set ?rows. code_reg (snd row) = res_code_reg ?out \<longrightarrow>
           name_reg (snd row) = Some (res_name_reg ?out)" by code_simp
  have h3: "in_int64 (sum_list (map Registered (rows_of_region ''84'' ?rows)))" by code_simp
  have r: "res_code_reg ?out = ''84''" by (simp add: result_row_def)
  from aggregation_sums [OF h1 h2] h1 h3 show ?thesis unfolding r by blast
qed

text \<open>
  Claim C9: two input tables with the same rows in a different order give the same
  regional results.
\<close>

theorem row_order_irrelevant:
  assumes "mset xs = mset ys"
  shows "compute_referendum_result_by_regions xs = compute_referendum_result_by_regions ys"
  by (simp add: compute_referendum_result_by_regions_def group_keys_perm[OF assms]
      agg_sum_perm[OF assms])


theorem row_order_irrelevant_witness:
  "mset [(vote_row (IntCode 1) 100 30 5 60 40, area_of ''84'' (Some ''Auvergne'') ''01'' ''Ain''),
         (vote_row (StrCode ''75'') 50 15 5 10 20, area_of ''11'' (Some ''Ile-de-France'') ''75'' ''Paris'')]
   = mset [(vote_row (StrCode ''75'') 50 15 5 10 20, area_of ''11'' (Some ''Ile-de-France'') ''75'' ''Paris''),
           (vote_row (IntCode 1) 100 30 5 60 40, area_of ''84'' (Some ''Auvergne'') ''01'' ''Ain'')]
   \<and> compute_referendum_result_by_regions
        [(vote_row (IntCode 1) 100 30 5 60 40, area_of ''84'' (Some ''Auvergne'') ''01'' ''Ain''),
         (vote_row (StrCode ''75'') 50 15 5 10 20, area_of ''11'' (Some ''Ile-de-France'') ''75'' ''Paris'')]
     = compute_referendum_result_by_regions
        [(vote_row (StrCode ''75'') 50 15 5 10 20, area_of ''11'' (Some ''Ile-de-France'') ''75'' ''Paris''),
         (vote_row (IntCode 1) 100 30 5 60 40, area_of ''84'' (Some ''Auvergne'') ''01'' ''Ain'')]"
proof -
  have h: "mset [(vote_row (IntCode 1) 100 30 5 60 40, area_of ''84'' (Some ''Auvergne'') ''01'' ''Ain''),
         (vote_row (StrCode ''75'') 50 15 5 10 20, area_of ''11'' (Some ''Ile-de-France'') ''75'' ''Paris'')]
   = mset [(vote_row (StrCode ''75'') 50 15 5 10 20, area_of ''11'' (Some ''Ile-de-France'') ''75'' ''Paris''),
           (vote_row (IntCode 1) 100 30 5 60 40, area_of ''84'' (Some ''Auvergne'') ''01'' ''Ain'')]"
    by (simp add: add_mset_commute)
  from h row_order_irrelevant [OF h] show ?thesis by (rule conjI)
qed

section \<open>Order of the regional results\<close>

text \<open>
  Claim C10: whatever the order of the input rows, the rows of the table returned by
  \<open>compute_referendum_result_by_regions\<close> are in ascending order of the grouping key
  (region code, region name); no key occurs twice.
\<close>

theorem result_sorted:
  "sorted (map (\<lambda>r. (res_code_reg r, res_name_reg r)) (compute_referendum_result_by_regions rows))
   \<and> distinct (map (\<lambda>r. (res_code_reg r, res_name_reg r)) (compute_referendum_result_by_regions rows))"
proof -
  have "map (\<lambda>r. (res_code_reg r, res_name_reg r)) (compute_referendum_result_by_regions rows)
        = group_keys rows"
    by (simp add: compute_referendum_result_by_regions_def agg_sum_def comp_def)
  then show ?thesis by (simp add: group_keys_def)
qed

end
